theory Spec2Isabelle
  imports Main "HOL-Library.Word"
begin

section \<open>The external scanner of tree-sitter-zsh (src/scanner.c)\<close>

subsection \<open>Token kinds and the valid-symbol array\<close>

text \<open>
  \<^verbatim>\<open>enum TokenType { UNQUOTED_WHITESPACE };\<close>
  The array \<^verbatim>\<open>const bool *valid_symbols\<close> is indexed by the enumeration, so it is a
  function from token kinds to booleans. The result slot of the lexer holds the ordinal
  of the enumerator, a 16-bit symbol number.
\<close>

datatype TokenType = UNQUOTED_WHITESPACE

type_synonym TSSymbol = "16 word"

definition symbol_of :: "TokenType \<Rightarrow> TSSymbol" where
  "symbol_of t = (case t of UNQUOTED_WHITESPACE \<Rightarrow> 0)"

subsection \<open>The host's cursor\<close>

text \<open>
  Modelled from the spec: the cursor \<^verbatim>\<open>TSLexer\<close> is declared in \<^verbatim>\<open>tree_sitter/parser.h\<close>
  and implemented by the host; neither is part of scanner.c. The scanner reads the field
  \<^verbatim>\<open>lookahead\<close> (an \<^verbatim>\<open>int32_t\<close>), calls \<^verbatim>\<open>advance(lexer, flag)\<close> and writes the field
  \<^verbatim>\<open>result_symbol\<close>. The cursor is the text not yet consumed (\<open>pending\<close>), the
  characters consumed so far, each with the flag that the call of \<^verbatim>\<open>advance\<close> passed for
  it (\<open>advanced\<close>, oldest first), and the result slot. The lookahead is the first pending
  character; at the end of the stream it is the sentinel 0, which is neither a
  backslash nor a whitespace character, and advancing there does nothing.
\<close>

type_synonym codepoint = "32 word"

record TSLexer =
  pending :: "codepoint list"
  advanced :: "(codepoint \<times> bool) list"
  result_symbol :: TSSymbol

definition lookahead :: "TSLexer \<Rightarrow> codepoint" where
  "lookahead lexer = (case pending lexer of [] \<Rightarrow> 0 | c # _ \<Rightarrow> c)"

definition advance :: "TSLexer \<Rightarrow> bool \<Rightarrow> TSLexer" where
  "advance lexer flag =
     (case pending lexer of
        [] \<Rightarrow> lexer
      | c # cs \<Rightarrow> lexer\<lparr>pending := cs, advanced := advanced lexer @ [(c, flag)]\<rparr>)"

text \<open>The number of characters the cursor has consumed.\<close>

definition position :: "TSLexer \<Rightarrow> nat" where
  "position lexer = length (advanced lexer)"

subsection \<open>The scan function\<close>

text \<open>
  The character constants of the source are their ASCII codes: the backslash is 92, the
  space 32, the tab 9 and the newline 10. The test that the lookahead is a space, a tab
  or a newline occurs twice, as the guard of the \<^verbatim>\<open>if\<close> and as the condition of the
  \<^verbatim>\<open>while\<close>.
\<close>

definition is_blank :: "codepoint \<Rightarrow> bool" where
  "is_blank c = (c = 32 \<or> c = 9 \<or> c = 10)"

text \<open>
  \<^verbatim>\<open>while (lexer->lookahead == ' ' || ...) { lexer->advance(lexer, false); }\<close>
  The loop returns the cursor it stops at; a run that never ended would be \<open>None\<close>.
\<close>

partial_function (option) scan_while :: "TSLexer \<Rightarrow> TSLexer option" where
  "scan_while lexer =
     (if is_blank (lookahead lexer) then scan_while (advance lexer False)
      else Some lexer)"

text \<open>
  \<^verbatim>\<open>bool tree_sitter_zsh_external_scanner_scan(void *payload, TSLexer *lexer,
                                              const bool *valid_symbols)\<close>
  The payload is a pointer (\<open>None\<close> is \<^verbatim>\<open>NULL\<close>). The result is the returned boolean
  together with the cursor as the call leaves it.
\<close>

type_synonym payload = "nat option"

definition tree_sitter_zsh_external_scanner_scan ::
  "payload \<Rightarrow> TSLexer \<Rightarrow> (TokenType \<Rightarrow> bool) \<Rightarrow> (bool \<times> TSLexer) option" where
  "tree_sitter_zsh_external_scanner_scan p lexer valid_symbols =
     (if valid_symbols UNQUOTED_WHITESPACE then
        (let lexer1 = (if lookahead lexer = 92 then advance lexer False else lexer)
         in if is_blank (lookahead lexer1) then
              (case scan_while lexer1 of
                 None \<Rightarrow> None
               | Some lexer2 \<Rightarrow>
                   Some (True, lexer2\<lparr>result_symbol := symbol_of UNQUOTED_WHITESPACE\<rparr>))
            else Some (False, lexer1))
      else Some (False, lexer))"

subsection \<open>Two valid-symbol arrays\<close>

text \<open>The array with the one entry true, and the array with the one entry false.\<close>

definition valid_all :: "TokenType \<Rightarrow> bool" where
  "valid_all t = True"

definition valid_none :: "TokenType \<Rightarrow> bool" where
  "valid_none t = False"

section \<open>Properties of the cursor and of the loop\<close>

lemma lookahead_Nil: "pending lexer = [] \<Longrightarrow> lookahead lexer = 0"
  by (simp add: lookahead_def)

lemma lookahead_Cons: "pending lexer = c # cs \<Longrightarrow> lookahead lexer = c"
  by (simp add: lookahead_def)

lemma sentinel_not_blank: "\<not> is_blank 0"
  by (simp add: is_blank_def)

lemma backslash_not_blank: "\<not> is_blank 92"
  by (simp add: is_blank_def)

lemma advance_Cons:
  "pending lexer = c # cs \<Longrightarrow>
   advance lexer flag = lexer\<lparr>pending := cs, advanced := advanced lexer @ [(c, flag)]\<rparr>"
  by (simp add: advance_def)

lemma advance_Nil: "pending lexer = [] \<Longrightarrow> advance lexer flag = lexer"
  by (simp add: advance_def)

text \<open>
  The loop always ends: it consumes the longest prefix of blank characters of the
  pending text, each with the flag \<open>False\<close>, and nothing else.
\<close>

lemma scan_while_eq:
  "scan_while lexer =
     Some (lexer\<lparr>pending := dropWhile is_blank (pending lexer),
                 advanced := advanced lexer @
                             map (\<lambda>c. (c, False)) (takeWhile is_blank (pending lexer))\<rparr>)"
proof (induction "pending lexer" arbitrary: lexer)
  case Nil
  then have "pending lexer = []" by simp
  then show ?case
    by (subst scan_while.simps) (simp add: lookahead_Nil sentinel_not_blank)
next
  case (Cons c cs)
  then have p: "pending lexer = c # cs" by simp
  show ?case
  proof (cases "is_blank c")
    case True
    let ?next = "advance lexer False"
    have n: "?next = lexer\<lparr>pending := cs, advanced := advanced lexer @ [(c, False)]\<rparr>"
      using p by (rule advance_Cons)
    have "cs = pending ?next" by (simp add: n)
    then have "scan_while ?next =
        Some (?next\<lparr>pending := dropWhile is_blank (pending ?next),
                     advanced := advanced ?next @
                        map (\<lambda>c. (c, False)) (takeWhile is_blank (pending ?next))\<rparr>)"
      by (rule Cons.hyps(1))
    then show ?thesis
      using True p by (subst scan_while.simps) (simp add: lookahead_Cons n)
  next
    case False
    then show ?thesis
      using p by (subst scan_while.simps) (simp add: lookahead_Cons)
  qed
qed

section \<open>A closed form of the scan function\<close>

lemma scan_eq:
  "tree_sitter_zsh_external_scanner_scan p lexer valid_symbols =
     Some (if valid_symbols UNQUOTED_WHITESPACE then
             (let lexer1 = (if lookahead lexer = 92 then advance lexer False else lexer)
              in if is_blank (lookahead lexer1) then
                   (True, lexer1\<lparr>pending := dropWhile is_blank (pending lexer1),
                                  advanced := advanced lexer1 @
                                     map (\<lambda>c. (c, False)) (takeWhile is_blank (pending lexer1)),
                                  result_symbol := symbol_of UNQUOTED_WHITESPACE\<rparr>)
                 else (False, lexer1))
           else (False, lexer))"
  by (simp add: tree_sitter_zsh_external_scanner_scan_def scan_while_eq Let_def)

lemma takeWhile_run:
  "\<forall>c\<in>set run. P c \<Longrightarrow> rest = [] \<or> \<not> P (hd rest) \<Longrightarrow> takeWhile P (run @ rest) = run"
  by (cases rest) simp_all

lemma dropWhile_run:
  "\<forall>c\<in>set run. P c \<Longrightarrow> rest = [] \<or> \<not> P (hd rest) \<Longrightarrow> dropWhile P (run @ rest) = rest"
  by (cases rest) simp_all

lemma lookahead_rest:
  "rest = [] \<or> \<not> is_blank (hd rest) \<Longrightarrow> pending lexer = rest \<Longrightarrow> \<not> is_blank (lookahead lexer)"
  by (cases rest) (auto simp: lookahead_def sentinel_not_blank)

lemma lookahead_backslash:
  "lookahead lexer = 92 \<Longrightarrow> \<exists>rest. pending lexer = 92 # rest"
  by (cases "pending lexer") (simp_all add: lookahead_def)

lemma is_blank_lookahead_takeWhile:
  "is_blank (lookahead lexer) \<longleftrightarrow> takeWhile is_blank (pending lexer) \<noteq> []"
  by (cases "pending lexer") (simp_all add: lookahead_def sentinel_not_blank)

lemma pending_split:
  "pending lexer =
     (if lookahead lexer = 92 then [92] else []) @
     drop (length (if lookahead lexer = 92 then [92::codepoint] else [])) (pending lexer)"
  by (cases "pending lexer") (simp_all add: lookahead_def)

text \<open>
  With the symbol valid, the call consumes the backslash under the lookahead, if there is
  one, then the longest run of blank characters that follows, and returns whether that
  run is not empty; the result slot is written only then.
\<close>

lemma scan_valid_eq:
  assumes "valid_symbols UNQUOTED_WHITESPACE"
  shows "tree_sitter_zsh_external_scanner_scan p lexer valid_symbols =
     (let bs = (if lookahead lexer = 92 then [92] else []);
          rest = drop (length bs) (pending lexer);
          ws = takeWhile is_blank rest
      in Some (ws \<noteq> [],
               lexer\<lparr>pending := dropWhile is_blank rest,
                     advanced := advanced lexer @ map (\<lambda>c. (c, False)) (bs @ ws),
                     result_symbol := (if ws \<noteq> [] then symbol_of UNQUOTED_WHITESPACE
                                       else result_symbol lexer)\<rparr>))"
proof (cases "lookahead lexer = 92")
  case True
  then obtain rest where p: "pending lexer = 92 # rest"
    using lookahead_backslash by blast
  let ?lexer1 = "advance lexer False"
  have a: "?lexer1 = lexer\<lparr>pending := rest, advanced := advanced lexer @ [(92, False)]\<rparr>"
    using p by (rule advance_Cons)
  have b: "is_blank (lookahead ?lexer1) \<longleftrightarrow> takeWhile is_blank rest \<noteq> []"
    by (simp add: is_blank_lookahead_takeWhile a)
  show ?thesis
  proof (cases "takeWhile is_blank rest = []")
    case Nil: True
    then have "dropWhile is_blank rest = rest"
      by (metis takeWhile_dropWhile_id append_Nil)
    then show ?thesis
      using assms True p a b Nil by (simp add: scan_eq Let_def)
  next
    case False
    then show ?thesis
      using assms True p a b by (simp add: scan_eq Let_def)
  qed
next
  case False
  have b: "is_blank (lookahead lexer) \<longleftrightarrow> takeWhile is_blank (pending lexer) \<noteq> []"
    by (rule is_blank_lookahead_takeWhile)
  show ?thesis
  proof (cases "takeWhile is_blank (pending lexer) = []")
    case Nil: True
    then have "dropWhile is_blank (pending lexer) = pending lexer"
      by (metis takeWhile_dropWhile_id append_Nil)
    then show ?thesis
      using assms False b Nil by (simp add: scan_eq Let_def)
  next
    case nonempty: False
    then show ?thesis
      using assms False b by (simp add: scan_eq Let_def)
  qed
qed

lemma scan_cases:
  assumes "tree_sitter_zsh_external_scanner_scan p lexer valid_symbols = Some (b, lexer')"
  obtains
    (invalid) "\<not> valid_symbols UNQUOTED_WHITESPACE" "b = False" "lexer' = lexer"
  | (valid) bs rest ws where "valid_symbols UNQUOTED_WHITESPACE"
      "bs = (if lookahead lexer = 92 then [92] else [])"
      "pending lexer = bs @ rest"
      "ws = takeWhile is_blank rest"
      "b = (ws \<noteq> [])"
      "lexer' = lexer\<lparr>pending := dropWhile is_blank rest,
                        advanced := advanced lexer @ map (\<lambda>c. (c, False)) (bs @ ws),
                        result_symbol := (if ws \<noteq> [] then symbol_of UNQUOTED_WHITESPACE
                                          else result_symbol lexer)\<rparr>"
proof (cases "valid_symbols UNQUOTED_WHITESPACE")
  case False
  then show ?thesis using assms invalid by (simp add: scan_eq)
next
  case True
  define bs :: "codepoint list" where "bs = (if lookahead lexer = 92 then [92] else [])"
  define rest where "rest = drop (length bs) (pending lexer)"
  have split: "pending lexer = bs @ rest"
    unfolding rest_def bs_def by (rule pending_split)
  have e: "tree_sitter_zsh_external_scanner_scan p lexer valid_symbols =
      Some (takeWhile is_blank rest \<noteq> [],
            lexer\<lparr>pending := dropWhile is_blank rest,
              advanced := advanced lexer @ map (\<lambda>c. (c, False)) (bs @ takeWhile is_blank rest),
              result_symbol := (if takeWhile is_blank rest \<noteq> []
                                then symbol_of UNQUOTED_WHITESPACE else result_symbol lexer)\<rparr>)"
    unfolding scan_valid_eq [of valid_symbols p lexer, OF True] Let_def rest_def bs_def ..
  have "Some (b, lexer') =
      Some (takeWhile is_blank rest \<noteq> [],
            lexer\<lparr>pending := dropWhile is_blank rest,
              advanced := advanced lexer @ map (\<lambda>c. (c, False)) (bs @ takeWhile is_blank rest),
              result_symbol := (if takeWhile is_blank rest \<noteq> []
                                then symbol_of UNQUOTED_WHITESPACE else result_symbol lexer)\<rparr>)"
    using assms [symmetric] e by (rule trans)
  then have "b = (takeWhile is_blank rest \<noteq> [])"
    and "lexer' = lexer\<lparr>pending := dropWhile is_blank rest,
            advanced := advanced lexer @ map (\<lambda>c. (c, False)) (bs @ takeWhile is_blank rest),
            result_symbol := (if takeWhile is_blank rest \<noteq> []
                              then symbol_of UNQUOTED_WHITESPACE else result_symbol lexer)\<rparr>"
    by (auto simp only: option.inject prod.inject)
  with split show ?thesis
    using True valid [of bs rest "takeWhile is_blank rest"] bs_def by blast
qed

text \<open>
  Every call of \<^verbatim>\<open>advance\<close> that the scan makes passes the literal \<^verbatim>\<open>false\<close>: once for a
  backslash under the lookahead, and once for each blank character of the run. What the
  host does with that flag is not visible in scanner.c.
\<close>

lemma scan_advance_flag:
  assumes "valid_symbols UNQUOTED_WHITESPACE"
    and "lookahead lexer = 92"
    and "tree_sitter_zsh_external_scanner_scan p lexer valid_symbols = Some (b, lexer')"
  shows "\<exists>ws. advanced lexer' = advanced lexer @ (92, False) # map (\<lambda>c. (c, False)) ws
            \<and> (\<forall>c\<in>set ws. is_blank c)"
  using assms(3)
proof (cases rule: scan_cases)
  case invalid
  then show ?thesis using assms(1) by simp
next
  case (valid bs rest ws)
  have "\<forall>c\<in>set ws. is_blank c"
    unfolding valid(4) by (auto dest: set_takeWhileD)
  moreover have "advanced lexer' = advanced lexer @ (92, False) # map (\<lambda>c. (c, False)) ws"
    using assms(2) by (simp add: valid(2,6))
  ultimately show ?thesis by blast
qed

section \<open>The claims\<close>

text \<open>
  C1. When the pending text begins with a non-empty run of spaces, tabs and newlines that
  is maximal (the text ends after it, or goes on with another character) and
  \<open>UNQUOTED_WHITESPACE\<close> is valid, the scan returns true, consumes exactly that run, leaves
  a lookahead that is none of the three characters, and sets the result slot to
  \<open>UNQUOTED_WHITESPACE\<close>.
\<close>

theorem scan_blank_run:
  assumes "valid_symbols UNQUOTED_WHITESPACE"
    and "pending lexer = run @ rest"
    and "run \<noteq> []"
    and "\<forall>c\<in>set run. is_blank c"
    and "rest = [] \<or> \<not> is_blank (hd rest)"
  shows "\<exists>lexer'. tree_sitter_zsh_external_scanner_scan p lexer valid_symbols = Some (True, lexer')
           \<and> pending lexer' = rest
           \<and> advanced lexer' = advanced lexer @ map (\<lambda>c. (c, False)) run
           \<and> position lexer' = position lexer + length run
           \<and> \<not> is_blank (lookahead lexer')
           \<and> result_symbol lexer' = symbol_of UNQUOTED_WHITESPACE"
proof -
  obtain c cs where run: "run = c # cs" using assms(3) by (cases run) auto
  have c: "is_blank c" using assms(4) run by simp
  have la: "lookahead lexer = c" using assms(2) run by (simp add: lookahead_def)
  have nb: "lookahead lexer \<noteq> 92" using c la backslash_not_blank by auto
  have tw: "takeWhile is_blank (pending lexer) = run"
    unfolding assms(2) using assms(4,5) by (rule takeWhile_run)
  have dw: "dropWhile is_blank (pending lexer) = rest"
    unfolding assms(2) using assms(4,5) by (rule dropWhile_run)
  have "\<not> is_blank (lookahead (lexer\<lparr>pending := rest\<rparr>))"
    using assms(5) by (rule lookahead_rest) simp
  then have "\<not> is_blank (case rest of [] \<Rightarrow> 0 | c # _ \<Rightarrow> c)" by (simp add: lookahead_def)
  then show ?thesis
    using assms(1) c la nb tw dw by (simp add: scan_eq position_def lookahead_def)
qed

text \<open>The run space, tab, newline before the letter x.\<close>

theorem scan_blank_run_witness:
  "valid_all UNQUOTED_WHITESPACE
   \<and> [32, 9, 10] \<noteq> ([] :: codepoint list)
   \<and> is_blank 32 \<and> is_blank 9 \<and> is_blank 10
   \<and> \<not> is_blank (hd [120])
   \<and> tree_sitter_zsh_external_scanner_scan None
        \<lparr>pending = [32, 9, 10, 120], advanced = [], result_symbol = 7\<rparr> valid_all
      = Some (True, \<lparr>pending = [120], advanced = [(32, False), (9, False), (10, False)],
                     result_symbol = symbol_of UNQUOTED_WHITESPACE\<rparr>)"
  using scan_blank_run [of valid_all
      "\<lparr>pending = [32, 9, 10, 120], advanced = [], result_symbol = 7\<rparr>"
      "[32, 9, 10]" "[120]" None]
  by (auto simp: valid_all_def is_blank_def)

text \<open>
  C2. When \<open>UNQUOTED_WHITESPACE\<close> is not valid, the scan returns false and leaves the
  cursor as it was, whatever the pending text is.
\<close>

theorem scan_not_valid:
  "\<not> valid_symbols UNQUOTED_WHITESPACE \<Longrightarrow>
   tree_sitter_zsh_external_scanner_scan p lexer valid_symbols = Some (False, lexer)"
  by (simp add: scan_eq)

text \<open>Two spaces under the cursor, and the symbol not valid.\<close>

theorem scan_not_valid_witness:
  "\<not> valid_none UNQUOTED_WHITESPACE
   \<and> tree_sitter_zsh_external_scanner_scan None
        \<lparr>pending = [32, 32, 120], advanced = [(97, False)], result_symbol = 3\<rparr> valid_none
      = Some (False, \<lparr>pending = [32, 32, 120], advanced = [(97, False)], result_symbol = 3\<rparr>)"
  using scan_not_valid [of valid_none None
      "\<lparr>pending = [32, 32, 120], advanced = [(97, False)], result_symbol = 3\<rparr>"]
  by (simp add: valid_none_def)

text \<open>
  C3. When \<open>UNQUOTED_WHITESPACE\<close> is valid, the lookahead is a backslash and what follows
  the backslash is not a space, a tab or a newline (or the text ends there), the scan
  returns false and the cursor has advanced by exactly one character, the backslash; the
  result slot is as before.
\<close>

theorem scan_backslash_not_blank:
  assumes "valid_symbols UNQUOTED_WHITESPACE"
    and "pending lexer = 92 # rest"
    and "rest = [] \<or> \<not> is_blank (hd rest)"
  shows "\<exists>lexer'. tree_sitter_zsh_external_scanner_scan p lexer valid_symbols = Some (False, lexer')
           \<and> pending lexer' = rest
           \<and> advanced lexer' = advanced lexer @ [(92, False)]
           \<and> position lexer' = position lexer + 1
           \<and> result_symbol lexer' = result_symbol lexer"
proof -
  have la: "lookahead lexer = 92" using assms(2) by (rule lookahead_Cons)
  have tw: "takeWhile is_blank rest = []" using assms(3) by (cases rest) auto
  then have dw: "dropWhile is_blank rest = rest"
    by (metis takeWhile_dropWhile_id append_Nil)
  show ?thesis
    using assms(1,2) la tw dw by (simp add: scan_valid_eq position_def)
qed

text \<open>A backslash before the letter x.\<close>

theorem scan_backslash_not_blank_witness:
  "valid_all UNQUOTED_WHITESPACE
   \<and> \<not> is_blank (hd [120])
   \<and> tree_sitter_zsh_external_scanner_scan None
        \<lparr>pending = [92, 120], advanced = [], result_symbol = 4\<rparr> valid_all
      = Some (False, \<lparr>pending = [120], advanced = [(92, False)], result_symbol = 4\<rparr>)"
  using scan_backslash_not_blank [of valid_all
      "\<lparr>pending = [92, 120], advanced = [], result_symbol = 4\<rparr>" "[120]" None]
  by (auto simp: valid_all_def is_blank_def)

text \<open>
  C4, as amended. Whenever the scan returns false, the cursor is where it started, except
  when \<open>UNQUOTED_WHITESPACE\<close> is valid and the lookahead was a backslash: then the cursor
  has advanced by exactly one character, that backslash.
\<close>

theorem scan_false_cursor:
  assumes "tree_sitter_zsh_external_scanner_scan p lexer valid_symbols = Some (False, lexer')"
  shows "lexer' = (if valid_symbols UNQUOTED_WHITESPACE \<and> lookahead lexer = 92
                   then advance lexer False else lexer)
       \<and> position lexer' =
           position lexer
           + (if valid_symbols UNQUOTED_WHITESPACE \<and> lookahead lexer = 92 then 1 else 0)"
proof (cases "valid_symbols UNQUOTED_WHITESPACE \<and> lookahead lexer = 92")
  case True
  then obtain rest where p: "pending lexer = 92 # rest"
    using lookahead_backslash by blast
  have "lexer' = advance lexer False"
    using assms True by (simp add: scan_eq Let_def split: if_splits)
  then show ?thesis
    using True p by (simp add: advance_def position_def)
next
  case False
  have "lexer' = lexer"
    using assms False by (auto simp: scan_eq Let_def split: if_splits)
  then show ?thesis using False by auto
qed

text \<open>A backslash before the letter x: the scan returns false one character further.\<close>

theorem scan_false_cursor_witness:
  "tree_sitter_zsh_external_scanner_scan None
     \<lparr>pending = [92, 120], advanced = [], result_symbol = 0\<rparr> valid_all
   = Some (False, \<lparr>pending = [120], advanced = [(92, False)], result_symbol = 0\<rparr>)
   \<and> \<lparr>pending = [120], advanced = [(92, False)], result_symbol = 0\<rparr> =
       advance \<lparr>pending = [92, 120], advanced = [], result_symbol = 0\<rparr> False
   \<and> position \<lparr>pending = [120], advanced = [(92, False)], result_symbol = 0\<rparr> =
       position \<lparr>pending = [92, 120], advanced = [], result_symbol = 0\<rparr> + 1"
proof -
  have r: "tree_sitter_zsh_external_scanner_scan None
       \<lparr>pending = [92, 120], advanced = [], result_symbol = 0\<rparr> valid_all
     = Some (False, \<lparr>pending = [120], advanced = [(92, False)], result_symbol = 0\<rparr>)"
    by (simp add: scan_eq valid_all_def lookahead_def advance_def is_blank_def)
  have c: "(valid_all UNQUOTED_WHITESPACE
      \<and> lookahead \<lparr>pending = [92, 120], advanced = [], result_symbol = 0\<rparr> = 92) = True"
    by (simp add: valid_all_def lookahead_def)
  show ?thesis
    by (rule conjI [OF r scan_false_cursor [OF r, unfolded c if_True]])
qed

text \<open>
  C4, as stated, fails: on a backslash before the letter x, with the symbol valid, the
  scan returns false and the cursor is one character further than where it started.
\<close>

theorem scan_false_moves_cursor_counterexample:
  "tree_sitter_zsh_external_scanner_scan None
     \<lparr>pending = [92, 120], advanced = [], result_symbol = 0\<rparr> valid_all
   = Some (False, \<lparr>pending = [120], advanced = [(92, False)], result_symbol = 0\<rparr>)
   \<and> \<lparr>pending = [120], advanced = [(92, False)], result_symbol = 0\<rparr>
      \<noteq> \<lparr>pending = [92, 120], advanced = [], result_symbol = 0\<rparr>
   \<and> position \<lparr>pending = [92, 120], advanced = [], result_symbol = 0\<rparr> = 0
   \<and> position \<lparr>pending = [120], advanced = [(92, False)], result_symbol = 0\<rparr> = 1"
  by (simp add: scan_eq valid_all_def lookahead_def advance_def is_blank_def position_def)

text \<open>
  C6. On a backslash, two spaces and then a character that is not a space, a tab or a
  newline, with \<open>UNQUOTED_WHITESPACE\<close> valid, the scan returns true, consumes exactly three
  characters (the backslash and both spaces), leaves that character as the lookahead and
  sets the result slot to \<open>UNQUOTED_WHITESPACE\<close>.
\<close>

theorem scan_backslash_two_spaces:
  assumes "valid_symbols UNQUOTED_WHITESPACE"
    and "pending lexer = 92 # 32 # 32 # c # rest"
    and "\<not> is_blank c"
  shows "\<exists>lexer'. tree_sitter_zsh_external_scanner_scan p lexer valid_symbols = Some (True, lexer')
           \<and> position lexer' = position lexer + 3
           \<and> advanced lexer' = advanced lexer @ [(92, False), (32, False), (32, False)]
           \<and> pending lexer' = c # rest
           \<and> lookahead lexer' = c
           \<and> result_symbol lexer' = symbol_of UNQUOTED_WHITESPACE"
proof -
  have la: "lookahead lexer = 92" using assms(2) by (rule lookahead_Cons)
  have sp: "is_blank 32" by (simp add: is_blank_def)
  show ?thesis
    using assms la sp by (simp add: scan_valid_eq position_def lookahead_def)
qed

text \<open>The input of the spec: a backslash, two spaces, the letter x.\<close>

theorem scan_backslash_two_spaces_witness:
  "valid_all UNQUOTED_WHITESPACE
   \<and> \<not> is_blank 120
   \<and> tree_sitter_zsh_external_scanner_scan None
        \<lparr>pending = [92, 32, 32, 120], advanced = [], result_symbol = 9\<rparr> valid_all
      = Some (True, \<lparr>pending = [120], advanced = [(92, False), (32, False), (32, False)],
                     result_symbol = symbol_of UNQUOTED_WHITESPACE\<rparr>)
   \<and> position \<lparr>pending = [120], advanced = [(92, False), (32, False), (32, False)],
                 result_symbol = symbol_of UNQUOTED_WHITESPACE\<rparr> = 3
   \<and> lookahead \<lparr>pending = [120], advanced = [(92, False), (32, False), (32, False)],
                  result_symbol = symbol_of UNQUOTED_WHITESPACE\<rparr> = 120"
  using scan_backslash_two_spaces [of valid_all
      "\<lparr>pending = [92, 32, 32, 120], advanced = [], result_symbol = 9\<rparr>" 120 "[]" None]
  by (auto simp: valid_all_def is_blank_def position_def lookahead_def)

text \<open>
  C7. The outcome of the scan depends on nothing but the pending text and the entry of
  \<open>UNQUOTED_WHITESPACE\<close> in the valid-symbol array: two calls that agree on these (whatever
  the payloads, the positions reached so far and the contents of the result slots are)
  return the same boolean, advance by the same number of characters and leave the same
  pending text. In particular, two calls from identical cursors with identical arrays do.
\<close>

theorem scan_deterministic:
  assumes "pending lexer1 = pending lexer2"
    and "valid_symbols1 UNQUOTED_WHITESPACE = valid_symbols2 UNQUOTED_WHITESPACE"
  shows "\<exists>b lexer1' lexer2' n.
           tree_sitter_zsh_external_scanner_scan p1 lexer1 valid_symbols1 = Some (b, lexer1')
         \<and> tree_sitter_zsh_external_scanner_scan p2 lexer2 valid_symbols2 = Some (b, lexer2')
         \<and> position lexer1' = position lexer1 + n
         \<and> position lexer2' = position lexer2 + n
         \<and> pending lexer1' = pending lexer2'"
proof (cases "valid_symbols1 UNQUOTED_WHITESPACE")
  case False
  then have "tree_sitter_zsh_external_scanner_scan p1 lexer1 valid_symbols1 = Some (False, lexer1)"
    and "tree_sitter_zsh_external_scanner_scan p2 lexer2 valid_symbols2 = Some (False, lexer2)"
    using assms(2) by (simp_all add: scan_eq)
  moreover have "position lexer1 = position lexer1 + 0" "position lexer2 = position lexer2 + 0"
    by simp_all
  ultimately show ?thesis using assms(1) by blast
next
  case True
  have la: "lookahead lexer1 = lookahead lexer2"
    using assms(1) by (simp add: lookahead_def)
  from True assms(2) have v2: "valid_symbols2 UNQUOTED_WHITESPACE" by simp
  show ?thesis
    unfolding scan_valid_eq [of valid_symbols1, OF True]
      scan_valid_eq [of valid_symbols2, OF v2] Let_def
    using assms(1) la by (simp add: position_def)
qed

text \<open>
  Two cursors on the same pending text (a backslash, a space, the letter x) that differ in
  the payload, in what was consumed before and in the result slot.
\<close>

theorem scan_deterministic_witness:
  "\<exists>b lexer1' lexer2' n.
       tree_sitter_zsh_external_scanner_scan None
         \<lparr>pending = [92, 32, 120], advanced = [], result_symbol = 0\<rparr> valid_all
       = Some (b, lexer1')
     \<and> tree_sitter_zsh_external_scanner_scan (Some 64)
         \<lparr>pending = [92, 32, 120], advanced = [(97, False)], result_symbol = 5\<rparr> valid_all
       = Some (b, lexer2')
     \<and> position lexer1' =
         position \<lparr>pending = [92, 32, 120], advanced = [], result_symbol = 0\<rparr> + n
     \<and> position lexer2' =
         position \<lparr>pending = [92, 32, 120], advanced = [(97, False)], result_symbol = 5\<rparr> + n
     \<and> pending lexer1' = pending lexer2'"
  by (rule scan_deterministic) simp_all

text \<open>
  C8. The scan returns on every input: it yields a boolean and a cursor, after advancing
  by no more characters than the pending text has. At the end of the stream the lookahead
  is neither a backslash nor a space, tab or newline, and the scan returns false with the
  cursor as it was.
\<close>

theorem scan_terminates:
  "(\<exists>b lexer' n. tree_sitter_zsh_external_scanner_scan p lexer valid_symbols = Some (b, lexer')
        \<and> position lexer' = position lexer + n \<and> n \<le> length (pending lexer))
   \<and> (pending lexer = [] \<longrightarrow>
        lookahead lexer \<noteq> 92 \<and> \<not> is_blank (lookahead lexer)
        \<and> tree_sitter_zsh_external_scanner_scan p lexer valid_symbols = Some (False, lexer))"
proof (intro conjI impI)
  obtain r where r: "tree_sitter_zsh_external_scanner_scan p lexer valid_symbols = Some r"
    by (simp add: scan_eq)
  obtain b lexer' where bl: "r = (b, lexer')" by (cases r)
  from r bl
  have res: "tree_sitter_zsh_external_scanner_scan p lexer valid_symbols = Some (b, lexer')"
    by simp
  then show "\<exists>b lexer' n.
        tree_sitter_zsh_external_scanner_scan p lexer valid_symbols = Some (b, lexer')
        \<and> position lexer' = position lexer + n \<and> n \<le> length (pending lexer)"
  proof (cases rule: scan_cases)
    case invalid
    then have "tree_sitter_zsh_external_scanner_scan p lexer valid_symbols = Some (False, lexer)"
      by (simp add: scan_eq)
    moreover have "position lexer = position lexer + 0 \<and> 0 \<le> length (pending lexer)"
      by simp
    ultimately show ?thesis by blast
  next
    case (valid bs rest ws)
    have "length ws \<le> length rest"
      unfolding valid(4) by (rule length_takeWhile_le)
    then have "length (bs @ ws) \<le> length (pending lexer)"
      by (simp add: valid(3))
    moreover have "position lexer' = position lexer + length (bs @ ws)"
      by (simp add: valid(6) position_def)
    ultimately show ?thesis using res by blast
  qed
next
  assume "pending lexer = []"
  then show "lookahead lexer \<noteq> 92" by (simp add: lookahead_def)
next
  assume "pending lexer = []"
  then show "\<not> is_blank (lookahead lexer)" by (simp add: lookahead_def sentinel_not_blank)
next
  assume "pending lexer = []"
  then have "lookahead lexer = 0" by (rule lookahead_Nil)
  then show "tree_sitter_zsh_external_scanner_scan p lexer valid_symbols = Some (False, lexer)"
    by (simp add: scan_eq sentinel_not_blank)
qed

text \<open>A cursor at the end of the stream, with the symbol valid.\<close>

theorem scan_terminates_witness:
  "pending \<lparr>pending = [], advanced = [(32, False)], result_symbol = 2\<rparr> = []
   \<and> tree_sitter_zsh_external_scanner_scan None
       \<lparr>pending = [], advanced = [(32, False)], result_symbol = 2\<rparr> valid_all
     = Some (False, \<lparr>pending = [], advanced = [(32, False)], result_symbol = 2\<rparr>)"
  using scan_terminates [of None
      "\<lparr>pending = [], advanced = [(32, False)], result_symbol = 2\<rparr>" valid_all]
  by simp

text \<open>
  C9. The scan changes the cursor only by consuming characters from the front of the
  pending text (what was consumed before stays, and the text itself is not altered) and by
  writing the result slot; the slot is written only when the scan returns true, and is
  unchanged whenever it returns false. The payload and the valid-symbol array are only
  read.
\<close>

theorem scan_frame:
  assumes "tree_sitter_zsh_external_scanner_scan p lexer valid_symbols = Some (b, lexer')"
  shows "(\<not> b \<longrightarrow> result_symbol lexer' = result_symbol lexer)
       \<and> (b \<longrightarrow> result_symbol lexer' = symbol_of UNQUOTED_WHITESPACE)
       \<and> (\<exists>ext. advanced lexer' = advanced lexer @ ext
                \<and> pending lexer = map fst ext @ pending lexer')"
  using assms
proof (cases rule: scan_cases)
  case invalid
  then show ?thesis by simp
next
  case (valid bs rest ws)
  have "rest = ws @ dropWhile is_blank rest"
    unfolding valid(4) by simp
  then have "pending lexer = map fst (map (\<lambda>c. (c, False)) (bs @ ws)) @ pending lexer'"
    using valid(3) by (simp add: valid(6) comp_def)
  then show ?thesis
    using valid(5) by (auto simp: valid(6))
qed

text \<open>
  A call that returns false (a backslash before the letter x) and one that returns true
  (a space before the letter x), both from a result slot that holds 6.
\<close>

theorem scan_frame_witness:
  "(result_symbol \<lparr>pending = [120], advanced = [(92, False)], result_symbol = 6\<rparr> =
      result_symbol \<lparr>pending = [92, 120], advanced = [], result_symbol = 6\<rparr>
    \<and> (\<exists>ext. advanced \<lparr>pending = [120], advanced = [(92, False)], result_symbol = 6\<rparr> =
             advanced \<lparr>pending = [92, 120], advanced = [], result_symbol = 6\<rparr> @ ext
           \<and> pending \<lparr>pending = [92, 120], advanced = [], result_symbol = 6\<rparr> =
             map fst ext @
             pending \<lparr>pending = [120], advanced = [(92, False)], result_symbol = 6\<rparr>))
   \<and> (result_symbol \<lparr>pending = [120], advanced = [(32, False)], result_symbol = 0\<rparr> =
        symbol_of UNQUOTED_WHITESPACE
      \<and> (\<exists>ext. advanced \<lparr>pending = [120], advanced = [(32, False)], result_symbol = 0\<rparr> =
               advanced \<lparr>pending = [32, 120], advanced = [], result_symbol = 6\<rparr> @ ext
             \<and> pending \<lparr>pending = [32, 120], advanced = [], result_symbol = 6\<rparr> =
               map fst ext @
               pending \<lparr>pending = [120], advanced = [(32, False)], result_symbol = 0\<rparr>))"
proof -
  have r: "tree_sitter_zsh_external_scanner_scan None
       \<lparr>pending = [92, 120], advanced = [], result_symbol = 6\<rparr> valid_all
     = Some (False, \<lparr>pending = [120], advanced = [(92, False)], result_symbol = 6\<rparr>)"
    by (simp add: scan_eq valid_all_def lookahead_def advance_def is_blank_def)
  have s: "tree_sitter_zsh_external_scanner_scan None
       \<lparr>pending = [32, 120], advanced = [], result_symbol = 6\<rparr> valid_all
     = Some (True, \<lparr>pending = [120], advanced = [(32, False)], result_symbol = 0\<rparr>)"
    by (simp add: scan_eq valid_all_def lookahead_def advance_def is_blank_def symbol_of_def)
  show ?thesis
    using scan_frame [OF r] scan_frame [OF s] by (simp only: simp_thms)
qed

text \<open>
  C10. The characters that a call consumes are an optional single backslash followed by
  spaces, tabs and newlines only; so at most one consumed character is not a space, tab or
  newline, and the cursor advances by at most one plus the length of the run of such
  characters that follows the optional backslash.
\<close>

theorem scan_consumes_blanks:
  assumes "tree_sitter_zsh_external_scanner_scan p lexer valid_symbols = Some (b, lexer')"
  shows "\<exists>bs ws.
           map fst (advanced lexer') = map fst (advanced lexer) @ bs @ ws
         \<and> pending lexer = bs @ ws @ pending lexer'
         \<and> (bs = [] \<or> bs = [92])
         \<and> (\<forall>c\<in>set ws. is_blank c)
         \<and> length (filter (\<lambda>c. \<not> is_blank c) (bs @ ws)) \<le> 1
         \<and> position lexer' = position lexer + length (bs @ ws)
         \<and> length (bs @ ws) \<le>
             1 + length (takeWhile is_blank
                    (if lookahead lexer = 92 then tl (pending lexer) else pending lexer))"
  using assms
proof (cases rule: scan_cases)
  case invalid
  then have "map fst (advanced lexer') = map fst (advanced lexer) @ [] @ []
      \<and> pending lexer = [] @ [] @ pending lexer'
      \<and> position lexer' = position lexer + length ([] @ ([]::codepoint list))"
    by simp
  then show ?thesis by (intro exI [of _ "[]"]) simp
next
  case (valid bs rest ws)
  have ws: "\<forall>c\<in>set ws. is_blank c"
    unfolding valid(4) by (auto dest: set_takeWhileD)
  then have f: "filter (\<lambda>c. \<not> is_blank c) ws = []" by (simp add: filter_empty_conv)
  have rest: "rest = ws @ dropWhile is_blank rest"
    unfolding valid(4) by simp
  have bs: "bs = [] \<or> bs = [92]" using valid(2) by simp
  have tl: "(if lookahead lexer = 92 then tl (pending lexer) else pending lexer) = rest"
    using valid(2,3) by (simp split: if_splits)
  have "map fst (advanced lexer') = map fst (advanced lexer) @ bs @ ws"
    by (simp add: valid(6) comp_def)
  moreover have "pending lexer = bs @ ws @ pending lexer'"
    using valid(3) rest by (simp add: valid(6))
  moreover have "length (filter (\<lambda>c. \<not> is_blank c) (bs @ ws)) \<le> 1"
    using bs f by auto
  moreover have "position lexer' = position lexer + length (bs @ ws)"
    by (simp add: valid(6) position_def)
  moreover have "length (bs @ ws) \<le>
      1 + length (takeWhile is_blank
             (if lookahead lexer = 92 then tl (pending lexer) else pending lexer))"
    unfolding tl using bs valid(4) by auto
  ultimately show ?thesis using bs ws by blast
qed

text \<open>A backslash, a space and a tab before the letter x.\<close>

theorem scan_consumes_blanks_witness:
  "\<exists>bs ws.
       map fst (advanced \<lparr>pending = [120], advanced = [(92, False), (32, False), (9, False)],
                          result_symbol = 0\<rparr>) =
         map fst (advanced \<lparr>pending = [92, 32, 9, 120], advanced = [], result_symbol = 1\<rparr>)
         @ bs @ ws
     \<and> pending \<lparr>pending = [92, 32, 9, 120], advanced = [], result_symbol = 1\<rparr> =
         bs @ ws @ pending \<lparr>pending = [120],
                             advanced = [(92, False), (32, False), (9, False)],
                             result_symbol = 0\<rparr>
     \<and> (bs = [] \<or> bs = [92])
     \<and> (\<forall>c\<in>set ws. is_blank c)
     \<and> length (filter (\<lambda>c. \<not> is_blank c) (bs @ ws)) \<le> 1
     \<and> position \<lparr>pending = [120], advanced = [(92, False), (32, False), (9, False)],
                   result_symbol = 0\<rparr> =
         position \<lparr>pending = [92, 32, 9, 120], advanced = [], result_symbol = 1\<rparr>
         + length (bs @ ws)
     \<and> length (bs @ ws) \<le>
         1 + length (takeWhile is_blank
                (if lookahead \<lparr>pending = [92, 32, 9, 120], advanced = [],
                                result_symbol = 1\<rparr> = 92
                 then tl (pending \<lparr>pending = [92, 32, 9, 120], advanced = [],
                                    result_symbol = 1\<rparr>)
                 else pending \<lparr>pending = [92, 32, 9, 120], advanced = [],
                                result_symbol = 1\<rparr>))"
proof -
  have r: "tree_sitter_zsh_external_scanner_scan None
       \<lparr>pending = [92, 32, 9, 120], advanced = [], result_symbol = 1\<rparr> valid_all
     = Some (True, \<lparr>pending = [120], advanced = [(92, False), (32, False), (9, False)],
                    result_symbol = 0\<rparr>)"
    by (simp add: scan_eq valid_all_def lookahead_def advance_def is_blank_def symbol_of_def)
  show ?thesis
    by (rule scan_consumes_blanks [OF r])
qed

end
